theory Spec2Isabelle
  imports
    Main
    "HOL-Library.Char_ord"
    "HOL-Library.List_Lexorder"
    "HOL-Library.Product_Lexorder"
    "HOL-Library.Sublist"
begin

section \<open>JSON values read by the pipeline\<close>

text \<open>
  A Python \<open>str\<close> is modelled as a \<open>string\<close> whose characters are the code points
  0 to 255. The order on strings is the lexicographic order on the code points, as for
  \<open>str\<close>. A string-valued JSON field that the source reads with \<open>dict.get\<close> and then
  tests against \<open>None\<close> or the empty string is a \<open>jstr\<close>: the key can be absent, hold
  \<open>null\<close>, or hold a string. Fields on which the source calls a string method directly
  (\<open>strip\<close>, slicing) are \<open>string option\<close>: absent, or a string.
\<close>

datatype jstr = Absent | Null | Str string

text \<open>\<open>d.get(k)\<close>: an absent key and a null value both read as \<open>None\<close>.\<close>

fun py_get :: "jstr \<Rightarrow> string option" where
  "py_get Absent = None"
| "py_get Null = None"
| "py_get (Str s) = Some s"

text \<open>\<open>d.get(k, default)\<close>: only an absent key reads as the default.\<close>

fun py_get_default :: "jstr \<Rightarrow> string \<Rightarrow> string option" where
  "py_get_default Absent d = Some d"
| "py_get_default Null d = None"
| "py_get_default (Str s) d = Some s"

text \<open>\<open>x or ""\<close> for \<open>x\<close> a string or \<open>None\<close>.\<close>

fun or_empty :: "string option \<Rightarrow> string" where
  "or_empty None = []"
| "or_empty (Some s) = s"

record filer =
  filer_name :: "string option"

record proceeding =
  proc_name :: jstr
  proc_description :: jstr

record document =
  doc_filename :: jstr
  doc_src :: "string option"

record person =
  person_name :: "string option"

record filing =
  id_submission :: jstr
  filers :: "filer list"
  proceedings :: "proceeding list"
  documents :: "document list"
  authors :: "person list"
  lawfirms :: "person list"
  submissiontype :: jstr
  filingstatus :: jstr
  date_received :: "string option"

text \<open>
  \<open>submissiontype\<close> and \<open>filingstatus\<close> hold the \<open>description\<close> of the nested object,
  read by \<open>f.get('submissiontype', {}).get('description')\<close>; an absent object reads
  as an absent description.
\<close>

section \<open>extract.py: deduplication by \<open>id_submission\<close>\<close>

text \<open>
  \<open>all_filings\<close> is a Python dict; it is written out with \<open>all_filings.values()\<close>, so
  its insertion order matters, and it is modelled as an association list in insertion
  order.
\<close>

type_synonym all_filings = "(string \<times> filing) list"

record query_stat =
  query :: string
  fetched :: int
  new_unique :: int

record extraction_meta =
  queries :: "query_stat list"
  total_unique_filings :: int

text \<open>
  The body of the inner loop:
  \<open>if submission_id and submission_id not in all_filings: all_filings[submission_id] = f\<close>.
\<close>

definition add_filing :: "all_filings \<Rightarrow> filing \<Rightarrow> all_filings" where
  "add_filing all f =
     (case py_get (id_submission f) of
        None \<Rightarrow> all
      | Some submission_id \<Rightarrow>
          if submission_id \<noteq> [] \<and> map_of all submission_id = None
          then all @ [(submission_id, f)]
          else all)"

text \<open>
  The outer loop over the queries. The filings fetched for each query (the result of
  \<open>fetch_all_filings\<close>, a network call) are given with the query.
\<close>

fun run_queries ::
  "(string \<times> filing list) list \<Rightarrow> all_filings \<Rightarrow> query_stat list
     \<Rightarrow> all_filings \<times> query_stat list" where
  "run_queries [] all stats = (all, stats)"
| "run_queries ((q, fs) # rest) all stats =
     (let count_before = int (length all);
          all' = foldl add_filing all fs;
          count_after = int (length all');
          new_count = count_after - count_before
      in run_queries rest all'
           (stats @ [\<lparr>query = q, fetched = int (length fs), new_unique = new_count\<rparr>]))"

definition extract_filings ::
  "(string \<times> filing list) list \<Rightarrow> all_filings \<times> extraction_meta" where
  "extract_filings fetched_by_query =
     (let (all, query_stats) = run_queries fetched_by_query [] []
      in (all, \<lparr>queries = query_stats, total_unique_filings = int (length all)\<rparr>))"

text \<open>The filings of all queries, in query order and then in within-query order.\<close>

definition fetched_in_order :: "(string \<times> filing list) list \<Rightarrow> filing list" where
  "fetched_in_order fetched_by_query = concat (map snd fetched_by_query)"

text \<open>A filing has a usable id when the key is present, not null and not empty.\<close>

definition has_id :: "filing \<Rightarrow> bool" where
  "has_id f = (case id_submission f of Str s \<Rightarrow> s \<noteq> [] | _ \<Rightarrow> False)"

definition distinct_ids :: "filing list \<Rightarrow> string set" where
  "distinct_ids fs = {s. s \<noteq> [] \<and> (\<exists>f \<in> set fs. id_submission f = Str s)}"

text \<open>
  What the per-query statistics hold, stated over the ids alone: the number of filings
  fetched, and the number of ids not seen before this query.
\<close>

fun query_stats_by_ids :: "string set \<Rightarrow> (string \<times> filing list) list \<Rightarrow> query_stat list" where
  "query_stats_by_ids seen [] = []"
| "query_stats_by_ids seen ((q, fs) # rest) =
     \<lparr>query = q, fetched = int (length fs),
      new_unique = int (card (distinct_ids fs - seen))\<rparr>
     # query_stats_by_ids (seen \<union> distinct_ids fs) rest"

definition missing_id_count :: "(string \<times> filing list) list \<Rightarrow> nat" where
  "missing_id_count fetched_by_query =
     length (filter (\<lambda>f. \<not> has_id f) (fetched_in_order fetched_by_query))"

subsection \<open>Example inputs\<close>

definition mk_filing :: "jstr \<Rightarrow> string \<Rightarrow> string \<Rightarrow> string \<Rightarrow> filing" where
  "mk_filing sid name typ date =
     \<lparr>id_submission = sid, filers = [\<lparr>filer_name = Some name\<rparr>], proceedings = [],
      documents = [], authors = [], lawfirms = [], submissiontype = Str typ,
      filingstatus = Absent, date_received = Some date\<rparr>"

definition query1 :: string where
  "query1 = CHR 0x22 # ''Numbering Authorization Application'' @ [CHR 0x22]"

definition query2 :: string where
  "query2 = ''52.15(g)''"

definition filing_a_first :: filing where
  "filing_a_first = mk_filing (Str ''A1'') ''Acme VoIP LLC'' ''APPLICATION'' ''2021-03-01T00:00:00Z''"

definition filing_a_second :: filing where
  "filing_a_second = mk_filing (Str ''A1'') ''Acme VoIP LLC'' ''SUPPLEMENT'' ''2022-01-15T00:00:00Z''"

definition filing_b :: filing where
  "filing_b = mk_filing (Str ''B2'') ''Beta Corp'' ''APPLICATION'' ''2020-05-05''"

definition filing_null_id :: filing where
  "filing_null_id = mk_filing Null ''Gamma Inc'' ''APPLICATION'' ''2020-06-06''"

definition filing_empty_id :: filing where
  "filing_empty_id = mk_filing (Str []) ''Gamma Inc'' ''APPLICATION'' ''2020-06-06''"

definition fetched_with_duplicate :: "(string \<times> filing list) list" where
  "fetched_with_duplicate =
     [(query1, [filing_a_first, filing_b]), (query2, [filing_a_second, filing_null_id])]"

definition fetched_one_duplicate :: "(string \<times> filing list) list" where
  "fetched_one_duplicate = [(query1, [filing_b, filing_b]), (query2, [])]"

definition fetched_one_missing :: "(string \<times> filing list) list" where
  "fetched_one_missing = [(query1, [filing_b, filing_empty_id]), (query2, [])]"

section \<open>Python string operations\<close>

text \<open>
  \<open>str.isspace\<close> on one character, and the characters \<open>\s\<close> matches in a \<open>str\<close>
  pattern: tab, newline, vertical tab, form feed, carriage return, the separators
  0x1C to 0x1F, space, 0x85 and 0xA0 (among the code points below 256).
\<close>

definition py_isspace :: "char \<Rightarrow> bool" where
  "py_isspace c =
     (c \<in> set [CHR 0x09, CHR 0x0A, CHR 0x0B, CHR 0x0C, CHR 0x0D, CHR 0x1C, CHR 0x1D,
               CHR 0x1E, CHR 0x1F, CHR 0x20, CHR 0x85, CHR 0xA0])"

text \<open>
  \<open>str.lower\<close> on one character: \<open>A\<close> to \<open>Z\<close> and the capital letters 0xC0 to 0xDE
  (without the multiplication sign 0xD7) move up by 32.
\<close>

definition py_lower_char :: "char \<Rightarrow> char" where
  "py_lower_char c =
     (let n = (of_char c :: nat)
      in if (65 \<le> n \<and> n \<le> 90) \<or> (192 \<le> n \<and> n \<le> 222 \<and> n \<noteq> 215)
         then char_of (n + 32) else c)"

definition py_lower :: "string \<Rightarrow> string" where
  "py_lower s = map py_lower_char s"

definition py_lstrip :: "string \<Rightarrow> string" where
  "py_lstrip s = dropWhile py_isspace s"

definition py_rstrip :: "string \<Rightarrow> string" where
  "py_rstrip s = rev (dropWhile py_isspace (rev s))"

definition py_strip :: "string \<Rightarrow> string" where
  "py_strip s = py_rstrip (py_lstrip s)"

text \<open>\<open>s.rstrip(chars)\<close>\<close>

definition py_rstrip_chars :: "string \<Rightarrow> string \<Rightarrow> string" where
  "py_rstrip_chars chars s = rev (dropWhile (\<lambda>c. c \<in> set chars) (rev s))"

text \<open>\<open>t in s\<close> for strings: \<open>t\<close> occurs in \<open>s\<close> as a contiguous substring.\<close>

fun py_in :: "string \<Rightarrow> string \<Rightarrow> bool" where
  "py_in t [] = (t = [])"
| "py_in t (c # cs) = (prefix t (c # cs) \<or> py_in t cs)"

section \<open>Regular expressions of the source\<close>

text \<open>
  The patterns of the source are sequences of atoms: a literal, an optional literal, a
  character class, a greedy or lazy repetition of a character class, and the end
  anchor. \<open>IGNORECASE\<close> patterns use the case-insensitive literals.
\<close>

datatype cls = Space | Dot | OneOf string | SpaceOr string

fun in_cls :: "cls \<Rightarrow> char \<Rightarrow> bool" where
  "in_cls Space c = py_isspace c"
| "in_cls Dot c = (c \<noteq> CHR 0x0A)"
| "in_cls (OneOf cs) c = (c \<in> set cs)"
| "in_cls (SpaceOr cs) c = (c \<in> set cs \<or> py_isspace c)"

datatype atom =
    Lit char
  | LitI char
  | OptLit char
  | OptLitI char
  | One cls
  | Many cls
  | Many1 cls
  | Lazy1 cls
  | Eol

text \<open>
  The matcher returns, for a pattern and the rest of the subject string, every rest
  that can remain after a match starting here, in the order in which the backtracking
  matcher of \<open>re\<close> tries them: a greedy repetition tries the longest run first, a lazy
  one the shortest, an optional literal tries to take the character first. The first
  element is the match \<open>re\<close> reports. \<open>$\<close> matches at the end of the string and before
  a newline that ends the string.
\<close>

fun many :: "cls \<Rightarrow> string \<Rightarrow> string list" where
  "many k [] = [[]]"
| "many k (c # cs) = (if in_cls k c then many k cs @ [c # cs] else [c # cs])"

fun lazy1 :: "cls \<Rightarrow> string \<Rightarrow> string list" where
  "lazy1 k [] = []"
| "lazy1 k (c # cs) = (if in_cls k c then cs # lazy1 k cs else [])"

fun atom_ms :: "atom \<Rightarrow> string \<Rightarrow> string list" where
  "atom_ms (Lit x) s = (case s of [] \<Rightarrow> [] | c # cs \<Rightarrow> if c = x then [cs] else [])"
| "atom_ms (LitI x) s =
     (case s of [] \<Rightarrow> [] | c # cs \<Rightarrow> if py_lower_char c = py_lower_char x then [cs] else [])"
| "atom_ms (OptLit x) s = (case s of [] \<Rightarrow> [[]] | c # cs \<Rightarrow> if c = x then [cs, s] else [s])"
| "atom_ms (OptLitI x) s =
     (case s of [] \<Rightarrow> [[]]
      | c # cs \<Rightarrow> if py_lower_char c = py_lower_char x then [cs, s] else [s])"
| "atom_ms (One k) s = (case s of [] \<Rightarrow> [] | c # cs \<Rightarrow> if in_cls k c then [cs] else [])"
| "atom_ms (Many k) s = many k s"
| "atom_ms (Many1 k) s = (case s of [] \<Rightarrow> [] | c # cs \<Rightarrow> if in_cls k c then many k cs else [])"
| "atom_ms (Lazy1 k) s = lazy1 k s"
| "atom_ms Eol s = (if s = [] \<or> s = [CHR 0x0A] then [s] else [])"

fun ms :: "atom list \<Rightarrow> string \<Rightarrow> string list" where
  "ms [] s = [s]"
| "ms (a # as) s = concat (map (ms as) (atom_ms a s))"

text \<open>
  \<open>re.sub(pattern, repl, s)\<close> for a replacement without group references: scan from
  the left, replace the first match found at the current position and go on after it,
  otherwise copy one character. No pattern of the source matches the empty string; a
  position where only the empty string matches is copied like a position without match.
\<close>

function re_sub :: "atom list \<Rightarrow> string \<Rightarrow> string \<Rightarrow> string" where
  "re_sub p repl [] = []"
| "re_sub p repl (c # cs) =
     (case ms p (c # cs) of
        [] \<Rightarrow> c # re_sub p repl cs
      | r # _ \<Rightarrow>
          if length r < length (c # cs) then repl @ re_sub p repl r
          else c # re_sub p repl cs)"
  by pat_completeness auto
termination
  by (relation "measure (\<lambda>(p, repl, s). length s)") auto

text \<open>The text of a pattern, for literals: one \<open>Lit\<close> per character.\<close>

definition lits :: "string \<Rightarrow> atom list" where
  "lits s = map Lit s"

definition lits_i :: "string \<Rightarrow> atom list" where
  "lits_i s = map LitI s"

section \<open>structure.py: the name normalizer\<close>

text \<open>\<open>\s*,?\s*\<close>, the head of every suffix pattern.\<close>

definition sep :: "atom list" where
  "sep = [Many Space, OptLit CHR '','', Many Space]"

text \<open>A letter followed by \<open>\.?\<close>.\<close>

definition dotted :: "char \<Rightarrow> atom list" where
  "dotted c = [Lit c, OptLit CHR ''.'']"

definition suffixes :: "(atom list \<times> string) list" where
  "suffixes =
     [(sep @ dotted CHR ''l'' @ dotted CHR ''l'' @ dotted CHR ''c'' @ [Eol], '' llc''),
      (sep @ lits ''inc'' @ [OptLit CHR ''.'', Eol], '' inc''),
      (sep @ lits ''corp'' @ [OptLit CHR ''.'', Eol], '' corp''),
      (sep @ dotted CHR ''l'' @ dotted CHR ''l'' @ dotted CHR ''p'' @ [Eol], '' llp''),
      (sep @ dotted CHR ''l'' @ dotted CHR ''p'' @ [Eol], '' lp''),
      (sep @ lits ''ltd'' @ [OptLit CHR ''.'', Eol], '' ltd''),
      (sep @ lits ''co'' @ [OptLit CHR ''.'', Eol], '' co''),
      (sep @ dotted CHR ''p'' @ dotted CHR ''l'' @ dotted CHR ''l'' @ dotted CHR ''c'' @ [Eol],
       '' pllc'')]"

text \<open>The loop \<open>for pattern, replacement in suffixes: normalized = re.sub(...)\<close>.\<close>

definition apply_suffixes :: "(atom list \<times> string) list \<Rightarrow> string \<Rightarrow> string" where
  "apply_suffixes rules s = foldl (\<lambda>normalized (pattern, replacement). re_sub pattern replacement normalized) s rules"

definition normalize_company_name :: "string \<Rightarrow> string" where
  "normalize_company_name name =
     (if name = [] then []
      else
        let normalized = py_strip (py_lower name);
            normalized = apply_suffixes suffixes normalized;
            normalized = py_strip (re_sub [Many1 Space] '' '' normalized);
            normalized = py_rstrip_chars ''.,'' normalized
        in normalized)"

text \<open>
  The rule the specification words describe, for comparison with the loop above: only
  the first rule of the table whose pattern matches somewhere in the name is applied.
\<close>

fun re_search :: "atom list \<Rightarrow> string \<Rightarrow> bool" where
  "re_search p [] = (ms p [] \<noteq> [])"
| "re_search p (c # cs) = (ms p (c # cs) \<noteq> [] \<or> re_search p cs)"

fun apply_first_matching :: "(atom list \<times> string) list \<Rightarrow> string \<Rightarrow> string" where
  "apply_first_matching [] s = s"
| "apply_first_matching ((pattern, replacement) # rest) s =
     (if re_search pattern s then re_sub pattern replacement s
      else apply_first_matching rest s)"

section \<open>structure.py: d/b/a names and government filers\<close>

text \<open>
  \<open>re.match(pattern, name, re.IGNORECASE)\<close> for the two patterns \<open>^(.+?)MID(.+)$\<close>:
  the lazy first group is tried from its shortest length, then the middle part, then
  the greedy second group up to \<open>$\<close>. The result holds the two groups of the first
  match found.
\<close>

definition dba_match :: "atom list \<Rightarrow> string \<Rightarrow> (string \<times> string) option" where
  "dba_match mid name =
     (case concat (map (\<lambda>r1. concat (map (\<lambda>r2. map (\<lambda>r3. (r1, r2, r3)) (ms [Many1 Dot, Eol] r2))
                                          (ms mid r1)))
                       (lazy1 Dot name)) of
        [] \<Rightarrow> None
      | (r1, r2, r3) # _ \<Rightarrow>
          Some (take (length name - length r1) name, take (length r2 - length r3) r2))"

definition dba_patterns :: "(atom list) list" where
  "dba_patterns =
     [[Many1 Space, LitI CHR ''d'', OptLit CHR ''/'', LitI CHR ''b'', OptLit CHR ''/'',
       LitI CHR ''a'', Many1 Space],
      [Many1 Space] @ lits_i ''doing'' @ [Many1 Space] @ lits_i ''business'' @ [Many1 Space]
        @ lits_i ''as'' @ [Many1 Space]]"

fun dba_loop :: "(atom list) list \<Rightarrow> string \<Rightarrow> string \<times> string option" where
  "dba_loop [] name = (name, None)"
| "dba_loop (pattern # rest) name =
     (case dba_match pattern name of
        Some (g1, g2) \<Rightarrow> (py_strip g1, Some (py_strip g2))
      | None \<Rightarrow> dba_loop rest name)"

definition extract_dba_name :: "string \<Rightarrow> string \<times> string option" where
  "extract_dba_name name = dba_loop dba_patterns name"

definition govt_keywords :: "string list" where
  "govt_keywords =
     [''wireline competition bureau'', ''federal communications commission'', ''fcc'',
      ''u.s. department'', ''department of justice'']"

definition is_government_entity :: "string \<Rightarrow> bool" where
  "is_government_entity name =
     (let name_lower = py_lower name in list_ex (\<lambda>kw. py_in kw name_lower) govt_keywords)"

section \<open>structure.py: grouping and company records\<close>

text \<open>\<open>d.get(k, default)\<close> for a field that is absent or a string.\<close>

fun py_get_str :: "string option \<Rightarrow> string \<Rightarrow> string" where
  "py_get_str None d = d"
| "py_get_str (Some s) d = s"

text \<open>
  \<open>defaultdict(list)[key].append(v)\<close> and \<open>defaultdict(set)[key].add(v)\<close> on dicts
  kept in insertion order; a set is a list without repetition.
\<close>

fun dict_append :: "string \<Rightarrow> 'a \<Rightarrow> (string \<times> 'a list) list \<Rightarrow> (string \<times> 'a list) list" where
  "dict_append key v [] = [(key, [v])]"
| "dict_append key v ((k, vs) # rest) =
     (if k = key then (k, vs @ [v]) # rest else (k, vs) # dict_append key v rest)"

definition set_add :: "'a \<Rightarrow> 'a list \<Rightarrow> 'a list" where
  "set_add v vs = (if v \<in> set vs then vs else vs @ [v])"

fun dict_add :: "string \<Rightarrow> 'a \<Rightarrow> (string \<times> 'a list) list \<Rightarrow> (string \<times> 'a list) list" where
  "dict_add key v [] = [(key, [v])]"
| "dict_add key v ((k, vs) # rest) =
     (if k = key then (k, set_add v vs) # rest else (k, vs) # dict_add key v rest)"

text \<open>Reading a \<open>defaultdict(set)\<close> at a key: an absent key reads as the empty set.\<close>

definition dict_lookup :: "(string \<times> 'a list) list \<Rightarrow> string \<Rightarrow> 'a list" where
  "dict_lookup d key = (case map_of d key of None \<Rightarrow> [] | Some vs \<Rightarrow> vs)"

record grouping =
  company_filings :: "(string \<times> filing list) list"
  name_variations :: "(string \<times> string list) list"
  total_filings :: int
  excluded_govt :: int
  excluded_no_filer :: int

definition empty_grouping :: grouping where
  "empty_grouping =
     \<lparr>company_filings = [], name_variations = [], total_filings = 0, excluded_govt = 0,
      excluded_no_filer = 0\<rparr>"

text \<open>The body of the loop over the input lines; each \<open>continue\<close> is a branch.\<close>

definition group_step :: "grouping \<Rightarrow> filing \<Rightarrow> grouping" where
  "group_step g filing =
     (let g = g\<lparr>total_filings := total_filings g + 1\<rparr>
      in case filers filing of
           [] \<Rightarrow> g\<lparr>excluded_no_filer := excluded_no_filer g + 1\<rparr>
         | first_filer # _ \<Rightarrow>
             let filer_name = py_strip (py_get_str (filer_name first_filer) [])
             in if filer_name = [] then g\<lparr>excluded_no_filer := excluded_no_filer g + 1\<rparr>
                else if is_government_entity filer_name
                then g\<lparr>excluded_govt := excluded_govt g + 1\<rparr>
                else
                  let normalized = normalize_company_name filer_name
                  in g\<lparr>name_variations := dict_add normalized filer_name (name_variations g),
                        company_filings := dict_append normalized filing (company_filings g)\<rparr>)"

definition group_filings :: "filing list \<Rightarrow> grouping" where
  "group_filings input_lines = foldl group_step empty_grouping input_lines"

record doc_entry =
  de_filename :: "string option"
  de_url :: string
  de_filing_id :: "string option"
  de_filing_type :: "string option"
  de_filing_date :: string

record filing_summary =
  fs_id :: "string option"
  fs_type :: "string option"
  fs_date :: string
  fs_status :: "string option"

record company =
  company_name :: string
  company_name_normalized :: string
  dba_name :: "string option"
  c_name_variations :: "string list"
  docket_numbers :: "string list"
  first_filing_date :: string
  latest_filing_date :: "string option"
  application_count :: int
  total_filing_count :: int
  c_filings :: "filing_summary list"
  c_documents :: "doc_entry list"
  contacts :: "string list"
  attorneys :: "string list"
  proceeding_types :: "string list"

text \<open>\<open>f.get('submissiontype', {}).get('description') == 'APPLICATION'\<close>\<close>

definition is_application :: "filing \<Rightarrow> bool" where
  "is_application f = (py_get (submissiontype f) = Some ''APPLICATION'')"

text \<open>\<open>x.get('date_received', '')\<close>, the sort key, and its first ten characters.\<close>

definition date_key :: "filing \<Rightarrow> string" where
  "date_key f = py_get_str (date_received f) []"

definition date10 :: "filing \<Rightarrow> string" where
  "date10 f = take 10 (date_key f)"

text \<open>The collecting loops; a Python set is built with \<open>set_add\<close>.\<close>

definition collect_dockets :: "filing list \<Rightarrow> string list" where
  "collect_dockets fs =
     foldl (\<lambda>dockets p.
              case py_get_default (proc_name p) [] of
                None \<Rightarrow> dockets
              | Some docket \<Rightarrow>
                  if docket \<noteq> [] \<and> docket \<notin> set [''INBOX-52.15'', ''INBOX-1.41'']
                  then set_add docket dockets else dockets)
       [] (concat (map proceedings fs))"

definition collect_documents :: "filing list \<Rightarrow> doc_entry list" where
  "collect_documents fs =
     concat (map (\<lambda>f. map (\<lambda>doc.
        \<lparr>de_filename = py_get_default (doc_filename doc) [],
         de_url = py_get_str (doc_src doc) [],
         de_filing_id = py_get (id_submission f),
         de_filing_type = py_get (submissiontype f),
         de_filing_date = date10 f\<rparr>) (documents f)) fs)"

definition collect_names :: "person list \<Rightarrow> string list" where
  "collect_names ps =
     foldl (\<lambda>names a.
              let name = py_strip (py_get_str (person_name a) [])
              in if name \<noteq> [] then set_add name names else names)
       [] ps"

definition collect_proceeding_types :: "filing list \<Rightarrow> string list" where
  "collect_proceeding_types fs =
     foldl (\<lambda>types p.
              case py_get_default (proc_description p) [] of
                None \<Rightarrow> types
              | Some desc \<Rightarrow> if desc \<noteq> [] then set_add desc types else types)
       [] (concat (map proceedings fs))"

text \<open>The sort key \<open>(-len(x), x)\<close> of the name variations.\<close>

definition variation_key :: "string \<Rightarrow> int \<times> string" where
  "variation_key x = (- int (length x), x)"

text \<open>
  The body of the loop over \<open>company_filings.items()\<close>: \<open>None\<close> is the \<open>continue\<close> of
  a group without application.
\<close>

definition build_company :: "grouping \<Rightarrow> string \<times> filing list \<Rightarrow> company option" where
  "build_company g item =
     (let normalized_name = fst item;
          filings = snd item;
          applications = filter is_application filings;
          other_filings = filter (\<lambda>f. \<not> is_application f) filings
      in if applications = [] then None
         else
           let applications = sort_key date_key applications;
               other_filings = sort_key date_key other_filings;
               primary_app = applications ! 0;
               dockets = collect_dockets filings;
               documents = collect_documents filings;
               contacts = collect_names (concat (map authors filings));
               attorneys = collect_names (concat (map lawfirms filings));
               proceeding_types = collect_proceeding_types filings;
               variations = dict_lookup (name_variations g) normalized_name;
               variations = sort_key variation_key variations;
               primary_name = (if variations \<noteq> [] then variations ! 0 else normalized_name);
               (base_name, dba_name) = extract_dba_name primary_name;
               filing_summaries = map (\<lambda>f.
                  \<lparr>fs_id = py_get (id_submission f), fs_type = py_get (submissiontype f),
                   fs_date = date10 f, fs_status = py_get (filingstatus f)\<rparr>) filings;
               filing_summaries = sort_key fs_date filing_summaries
           in Some
             \<lparr>company_name = primary_name,
              company_name_normalized = normalized_name,
              dba_name = dba_name,
              c_name_variations = sort variations,
              docket_numbers = sort dockets,
              first_filing_date = date10 (applications ! 0),
              latest_filing_date = (if filings \<noteq> [] then Some (date10 (last filings)) else None),
              application_count = int (length applications),
              total_filing_count = int (length filings),
              c_filings = filing_summaries,
              c_documents = documents,
              contacts = sort contacts,
              attorneys = sort attorneys,
              proceeding_types = sort proceeding_types\<rparr>)"

record structure_stats =
  st_total_filings :: int
  st_excluded_govt :: int
  st_excluded_no_filer :: int
  unique_companies :: int
  companies_with_multiple_apps :: int
  total_documents :: int

definition structure_companies :: "filing list \<Rightarrow> company list \<times> structure_stats" where
  "structure_companies input_lines =
     (let g = group_filings input_lines;
          companies = List.map_filter (build_company g) (company_filings g);
          companies = sort_key company_name_normalized companies
      in (companies,
          \<lparr>st_total_filings = total_filings g,
           st_excluded_govt = excluded_govt g,
           st_excluded_no_filer = excluded_no_filer g,
           unique_companies = int (length companies),
           companies_with_multiple_apps =
             int (length (filter (\<lambda>c. application_count c > 1) companies)),
           total_documents = sum_list (map (\<lambda>c. int (length (c_documents c))) companies)\<rparr>))"

text \<open>
  The group a filing is put in: the normalized name of its first filer, when the filing
  is not excluded.
\<close>

definition filing_key :: "filing \<Rightarrow> string option" where
  "filing_key filing =
     (case filers filing of
        [] \<Rightarrow> None
      | first_filer # _ \<Rightarrow>
          let filer_name = py_strip (py_get_str (filer_name first_filer) [])
          in if filer_name = [] \<or> is_government_entity filer_name then None
             else Some (normalize_company_name filer_name))"

definition filing_filer_name :: "filing \<Rightarrow> string" where
  "filing_filer_name filing =
     (case filers filing of [] \<Rightarrow> [] | first_filer # _ \<Rightarrow> py_strip (py_get_str (filer_name first_filer) []))"

text \<open>The filings of a group, in input order, and the name variants observed for it.\<close>

definition group_of :: "filing list \<Rightarrow> string \<Rightarrow> filing list" where
  "group_of input_lines key = filter (\<lambda>f. filing_key f = Some key) input_lines"

definition variants_of :: "filing list \<Rightarrow> string \<Rightarrow> string set" where
  "variants_of input_lines key = filing_filer_name ` set (group_of input_lines key)"

section \<open>filter.py: the relevance classifier\<close>

text \<open>The two loops of \<open>is_ipes_filing\<close>, with their early returns.\<close>

fun proceedings_loop :: "proceeding list \<Rightarrow> bool" where
  "proceedings_loop [] = False"
| "proceedings_loop (proc # rest) =
     (let desc = py_lower (or_empty (py_get (proc_description proc)))
      in if py_in ''interconnected voip numbering'' desc then True
         else if py_in ''voip numbering authorization application'' desc then True
         else if py_in ''authorization to obtain numbering resources'' desc then True
         else proceedings_loop rest)"

fun documents_loop :: "document list \<Rightarrow> bool" where
  "documents_loop [] = False"
| "documents_loop (doc # rest) =
     (let filename = py_lower (or_empty (py_get (doc_filename doc)))
      in if py_in ''voip numbering'' filename then True
         else documents_loop rest)"

definition is_ipes_filing :: "filing \<Rightarrow> bool" where
  "is_ipes_filing filing =
     (if proceedings_loop (proceedings filing) then True
      else if documents_loop (documents filing) then True
      else False)"

text \<open>
  The words of the specification: a text contains a phrase case-insensitively when some
  contiguous part of it equals the phrase up to case; a missing or null field counts as
  the empty text.
\<close>

definition contains_ci :: "string \<Rightarrow> string \<Rightarrow> bool" where
  "contains_ci phrase txt =
     (\<exists>pre mid post. txt = pre @ mid @ post \<and> py_lower mid = py_lower phrase)"

definition trigger_phrases :: "string list" where
  "trigger_phrases =
     [''interconnected voip numbering'', ''voip numbering authorization application'',
      ''authorization to obtain numbering resources'']"

fun text_of :: "jstr \<Rightarrow> string" where
  "text_of (Str s) = s"
| "text_of Absent = []"
| "text_of Null = []"

section \<open>download\_docs.py and enrich.py: file name sanitization\<close>

text \<open>\<open>s.rsplit(sep, 1)\<close> for a string that contains \<open>sep\<close>: split at its last occurrence.\<close>

definition py_rsplit1 :: "char \<Rightarrow> string \<Rightarrow> string \<times> string" where
  "py_rsplit1 sp s =
     (rev (drop 1 (dropWhile (\<lambda>c. c \<noteq> sp) (rev s))), rev (takeWhile (\<lambda>c. c \<noteq> sp) (rev s)))"

text \<open>The class \<open>[<>:"/\\|?*]\<close>.\<close>

definition problematic :: string where
  "problematic = ''<>:'' @ [CHR 0x22] @ ''/'' @ [CHR 0x5C] @ ''|?*''"

text \<open>\<open>sanitize_filename\<close> of download\_docs.py.\<close>

definition sanitize_filename_download_docs :: "string \<Rightarrow> string" where
  "sanitize_filename_download_docs filename =
     (let filename = re_sub [One (OneOf problematic)] ''_'' filename;
          filename = re_sub [Many1 (SpaceOr ''_'')] ''_'' filename
      in if length filename > 100
         then
           let (name, ext) = (if CHR ''.'' \<in> set filename then py_rsplit1 CHR ''.'' filename
                              else (filename, []))
           in take 95 name @ (if ext \<noteq> [] then ''.'' @ ext else [])
         else filename)"

text \<open>\<open>sanitize_filename\<close> of enrich.py.\<close>

definition sanitize_filename_enrich :: "string \<Rightarrow> string" where
  "sanitize_filename_enrich filename =
     (let filename = re_sub [One (OneOf problematic)] ''_'' filename;
          filename = re_sub [Many1 (SpaceOr ''_'')] ''_'' filename
      in if length filename > 100
         then
           let (name, ext) = (if CHR ''.'' \<in> set filename then py_rsplit1 CHR ''.'' filename
                              else (filename, []))
           in take 95 name @ (if ext \<noteq> [] then ''.'' @ ext else [])
         else filename)"

section \<open>Example filings\<close>

definition filing_acme_application :: filing where
  "filing_acme_application =
     mk_filing (Str ''F1'') ''Acme VoIP LLC'' ''APPLICATION'' ''2021-03-01T00:00:00Z''"

definition filing_acme_supplement :: filing where
  "filing_acme_supplement =
     mk_filing (Str ''F2'') ''ACME VOIP, L.L.C.'' ''SUPPLEMENT'' ''2022-01-15T00:00:00Z''"

definition filing_zeta_application :: filing where
  "filing_zeta_application =
     mk_filing (Str ''F3'') ''Zeta LLC d/b/a Zed'' ''APPLICATION'' ''2020-02-02''"

definition filing_lone_supplement :: filing where
  "filing_lone_supplement =
     mk_filing (Str ''F4'') ''Omega Telecom Inc'' ''SUPPLEMENT'' ''2023-04-04''"

definition filing_voip_proceeding :: filing where
  "filing_voip_proceeding =
     (mk_filing (Str ''F5'') ''Acme VoIP LLC'' ''APPLICATION'' ''2021-03-01'')
       \<lparr>proceedings :=
          [\<lparr>proc_name = Str ''21-1'', proc_description = Null\<rparr>,
           \<lparr>proc_name = Str ''21-2'', proc_description = Str ''Interconnected VoIP Numbering request''\<rparr>],
        documents := [\<lparr>doc_filename = Absent, doc_src = None\<rparr>]\<rparr>"

definition filing_unrelated :: filing where
  "filing_unrelated =
     (mk_filing (Str ''F6'') ''Acme VoIP LLC'' ''LETTER'' ''2021-03-01'')
       \<lparr>proceedings := [\<lparr>proc_name = Str ''21-3'', proc_description = Absent\<rparr>],
        documents := [\<lparr>doc_filename = Null, doc_src = None\<rparr>,
                      \<lparr>doc_filename = Str ''cover letter.pdf'', doc_src = None\<rparr>]\<rparr>"

text \<open>The value of \<open>normalized\<close> after the first \<open>k\<close> rounds of the suffix loop.\<close>

definition after_rules :: "nat \<Rightarrow> string \<Rightarrow> string" where
  "after_rules k name = apply_suffixes (take k suffixes) (py_strip (py_lower name))"

definition filing_acme_comma :: filing where
  "filing_acme_comma =
     mk_filing (Str ''F7'') ''Acme VoIP, LLC'' ''APPLICATION'' ''2021-06-01''"

definition filing_acme_upper :: filing where
  "filing_acme_upper =
     mk_filing (Str ''F8'') ''ACME VOIP, LLC'' ''LETTER'' ''2021-07-01''"

definition filing_without_date :: filing where
  "filing_without_date =
     (mk_filing (Str ''F9'') ''Omega Telecom Inc'' ''APPLICATION'' [])\<lparr>date_received := None\<rparr>"

definition lines_supplement_first :: "filing list" where
  "lines_supplement_first = [filing_acme_supplement, filing_acme_application]"

definition lines_application_first :: "filing list" where
  "lines_application_first = [filing_acme_application, filing_acme_supplement]"

definition lines_with_lone_supplement :: "filing list" where
  "lines_with_lone_supplement = [filing_lone_supplement, filing_acme_application]"

definition lines_with_variants :: "filing list" where
  "lines_with_variants =
     [filing_acme_application, filing_acme_comma, filing_acme_upper, filing_zeta_application]"

section \<open>Properties of the deduplication\<close>

lemma map_of_add_filing:
  "map_of (add_filing all f) sid =
     (case map_of all sid of Some g \<Rightarrow> Some g
      | None \<Rightarrow> if sid \<noteq> [] \<and> id_submission f = Str sid then Some f else None)"
  by (cases "id_submission f") (auto simp: add_filing_def map_add_def split: option.splits)

lemma map_of_foldl_add_filing:
  "map_of (foldl add_filing all fs) sid =
     (case map_of all sid of Some g \<Rightarrow> Some g
      | None \<Rightarrow> if sid \<noteq> [] then find (\<lambda>g. id_submission g = Str sid) fs else None)"
proof (induction fs arbitrary: all)
  case Nil
  show ?case by (simp split: option.splits)
next
  case (Cons f fs)
  show ?case
    by (simp only: foldl_Cons Cons.IH map_of_add_filing) (simp split: option.splits)
qed

lemma find_Some_ex: "(\<exists>y. find P xs = Some y) = (\<exists>x \<in> set xs. P x)"
  by (induction xs) auto

lemma distinct_add_filing:
  "distinct (map fst all) \<Longrightarrow> distinct (map fst (add_filing all f))"
  by (cases "id_submission f") (auto simp: add_filing_def map_of_eq_None_iff)

lemma distinct_foldl_add_filing:
  "distinct (map fst all) \<Longrightarrow> distinct (map fst (foldl add_filing all fs))"
  by (induction fs arbitrary: all) (simp_all only: foldl_Nil foldl_Cons distinct_add_filing)

lemma keys_foldl_add_filing:
  "fst ` set (foldl add_filing [] fs) = distinct_ids fs"
proof -
  have "fst ` set (foldl add_filing [] fs) = dom (map_of (foldl add_filing [] fs))"
    by (simp add: dom_map_of_conv_image_fst)
  also have "\<dots> = distinct_ids fs"
    by (auto simp: dom_def map_of_foldl_add_filing distinct_ids_def find_Some_ex
        split: if_splits)
  finally show ?thesis .
qed

lemma fst_run_queries:
  "fst (run_queries qs all stats) = foldl add_filing all (concat (map snd qs))"
  proof (induction qs arbitrary: all stats)
  case Nil
  show ?case by simp
next
  case (Cons a qs)
  then show ?case by (cases a) (simp add: Let_def)
qed

lemma fst_extract_filings:
  "fst (extract_filings qs) = foldl add_filing [] (fetched_in_order qs)"
  by (simp add: extract_filings_def fetched_in_order_def split_beta fst_run_queries)

lemma finite_distinct_ids: "finite (distinct_ids fs)"
  using keys_foldl_add_filing[of fs, symmetric] by simp


lemma keys_foldl_add_filing_gen:
  "fst ` set (foldl add_filing all fs) = fst ` set all \<union> distinct_ids fs"
proof -
  have "fst ` set (foldl add_filing all fs) = dom (map_of (foldl add_filing all fs))"
    by (simp add: dom_map_of_conv_image_fst)
  also have "\<dots> = dom (map_of all) \<union> distinct_ids fs"
    by (auto simp: dom_def map_of_foldl_add_filing distinct_ids_def find_Some_ex
        split: if_splits option.splits)
  finally show ?thesis by (simp add: dom_map_of_conv_image_fst)
qed

lemma length_foldl_add_filing:
  assumes "distinct (map fst all)"
  shows "int (length (foldl add_filing all fs)) - int (length all)
           = int (card (distinct_ids fs - fst ` set all))"
proof -
  let ?all' = "foldl add_filing all fs"
  have d': "distinct (map fst ?all')" using assms by (rule distinct_foldl_add_filing)
  have "length ?all' = card (set (map fst ?all'))"
    using distinct_card[OF d'] by simp
  also have "\<dots> = card (fst ` set all \<union> (distinct_ids fs - fst ` set all))"
    by (simp add: keys_foldl_add_filing_gen)
  also have "\<dots> = card (fst ` set all) + card (distinct_ids fs - fst ` set all)"
    by (rule card_Un_disjoint) (auto simp: finite_distinct_ids)
  also have "card (fst ` set all) = length all"
    using distinct_card[OF assms] by simp
  finally show ?thesis by simp
qed

lemma snd_run_queries:
  "distinct (map fst all) \<Longrightarrow>
   snd (run_queries qs all stats) = stats @ query_stats_by_ids (fst ` set all) qs"
proof (induction qs arbitrary: all stats)
  case Nil
  show ?case by simp
next
  case (Cons a qs)
  obtain q fs where a: "a = (q, fs)" by (cases a)
  have d': "distinct (map fst (foldl add_filing all fs))"
    using Cons.prems by (rule distinct_foldl_add_filing)
  show ?case
    by (simp add: a Let_def Cons.IH[OF d'] length_foldl_add_filing[OF Cons.prems]
        keys_foldl_add_filing_gen)
qed

lemma stored_filing_has_id:
  "(k, f) \<in> set (foldl add_filing all fs) \<Longrightarrow>
   (k, f) \<in> set all \<or> (k \<noteq> [] \<and> id_submission f = Str k \<and> f \<in> set fs)"
proof (induction fs arbitrary: all)
  case Nil
  then show ?case by simp
next
  case (Cons g fs)
  from Cons.IH[of "add_filing all g"] Cons.prems
  have "(k, f) \<in> set (add_filing all g) \<or> (k \<noteq> [] \<and> id_submission f = Str k \<and> f \<in> set fs)"
    by simp
  then show ?case
    by (cases "id_submission g") (auto simp: add_filing_def split: if_splits)
qed

lemma length_extract_filings:
  "length (fst (extract_filings qs)) = card (distinct_ids (fetched_in_order qs))"
proof -
  let ?all = "fst (extract_filings qs)"
  have d: "distinct (map fst ?all)"
    by (simp add: fst_extract_filings distinct_foldl_add_filing)
  have "length ?all = length (map fst ?all)" by simp
  also have "\<dots> = card (set (map fst ?all))" using d by (simp only: distinct_card)
  also have "\<dots> = card (distinct_ids (fetched_in_order qs))"
    by (simp add: fst_extract_filings keys_foldl_add_filing)
  finally show ?thesis .
qed

lemmas ex_defs = fetched_with_duplicate_def fetched_one_duplicate_def fetched_one_missing_def
  filing_a_first_def filing_a_second_def filing_b_def filing_null_id_def filing_empty_id_def
  mk_filing_def extract_filings_def fetched_in_order_def add_filing_def query1_def query2_def

text \<open>
  Claim C3. For any ordered lists of fetched filings, one per query, the dedup map has
  each id once; its ids are exactly the distinct non-empty ids of the input; the filing
  kept under an id is the first filing with that id, in query order and then in
  within-query order; and the number of kept filings is the number of distinct ids.
\<close>

theorem dedup_first_occurrence_wins:
  "distinct (map fst (fst (extract_filings qs))) \<and>
   fst ` set (fst (extract_filings qs)) = distinct_ids (fetched_in_order qs) \<and>
   (\<forall>(sid, f) \<in> set (fst (extract_filings qs)).
      find (\<lambda>g. id_submission g = Str sid) (fetched_in_order qs) = Some f) \<and>
   length (fst (extract_filings qs)) = card (distinct_ids (fetched_in_order qs))"
proof -
  let ?all = "fst (extract_filings qs)" and ?fs = "fetched_in_order qs"
  have d: "distinct (map fst ?all)"
    by (simp add: fst_extract_filings distinct_foldl_add_filing)
  have k: "fst ` set ?all = distinct_ids ?fs"
    by (simp add: fst_extract_filings keys_foldl_add_filing)
  have f: "find (\<lambda>g. id_submission g = Str sid) ?fs = Some f" if "(sid, f) \<in> set ?all" for sid f
  proof -
    from that d have "map_of ?all sid = Some f" by simp
    then show ?thesis
      by (simp add: fst_extract_filings map_of_foldl_add_filing split: if_splits)
  qed
  from d k f length_extract_filings[of qs] show ?thesis by blast
qed

theorem dedup_first_occurrence_wins_witness:
  "(''A1'', filing_a_first) \<in> set (fst (extract_filings fetched_with_duplicate)) \<and>
   find (\<lambda>g. id_submission g = Str ''A1'') (fetched_in_order fetched_with_duplicate)
     = Some filing_a_first \<and>
   filing_a_second \<noteq> filing_a_first \<and>
   fst (extract_filings fetched_with_duplicate) = [(''A1'', filing_a_first), (''B2'', filing_b)] \<and>
   card (distinct_ids (fetched_in_order fetched_with_duplicate)) = 2"
  using dedup_first_occurrence_wins[of fetched_with_duplicate]
  by (simp add: ex_defs Let_def)

text \<open>
  Claim C4, as stated, fails: two inputs with the same reported statistics, one with no
  filing without id and one with one such filing. The statistics do not count the
  filings without id separately.
\<close>

theorem missing_id_not_counted:
  "snd (extract_filings fetched_one_duplicate) = snd (extract_filings fetched_one_missing) \<and>
   missing_id_count fetched_one_duplicate \<noteq> missing_id_count fetched_one_missing"
  by (simp add: ex_defs Let_def missing_id_count_def has_id_def)

text \<open>
  Claim C4, as amended. A filing whose id is absent, null or empty is never stored in
  the dedup map, and no key of the map is empty: every stored filing has a non-empty id
  and is stored under it. The reported statistics hold, per query, the number of
  filings fetched and the number of ids not seen before, and the total number of
  distinct ids; they hold no count of the filings without id.
\<close>

theorem missing_id_never_stored:
  "(\<forall>(k, f) \<in> set (fst (extract_filings qs)).
      k \<noteq> [] \<and> id_submission f = Str k \<and> has_id f) \<and>
   queries (snd (extract_filings qs)) = query_stats_by_ids {} qs \<and>
   total_unique_filings (snd (extract_filings qs))
     = int (card (distinct_ids (fetched_in_order qs)))"
proof -
  have a: "k \<noteq> [] \<and> id_submission f = Str k \<and> has_id f"
    if "(k, f) \<in> set (fst (extract_filings qs))" for k f
    using stored_filing_has_id[of k f "[]" "fetched_in_order qs"] that
    by (simp add: fst_extract_filings has_id_def)
  have b: "queries (snd (extract_filings qs)) = query_stats_by_ids {} qs"
    using snd_run_queries[of "[]" qs "[]"]
    by (simp add: extract_filings_def split_beta)
  have "total_unique_filings (snd (extract_filings qs)) = int (length (fst (extract_filings qs)))"
    by (simp add: extract_filings_def split_beta)
  then have c: "total_unique_filings (snd (extract_filings qs))
     = int (card (distinct_ids (fetched_in_order qs)))"
    by (simp add: length_extract_filings)
  from a b c show ?thesis by blast
qed

theorem missing_id_never_stored_witness:
  "(''A1'', filing_a_first) \<in> set (fst (extract_filings fetched_with_duplicate)) \<and>
   has_id filing_a_first \<and> id_submission filing_a_first = Str ''A1'' \<and>
   \<not> has_id filing_null_id \<and>
   filing_null_id \<in> set (fetched_in_order fetched_with_duplicate) \<and>
   fst (extract_filings fetched_with_duplicate) = [(''A1'', filing_a_first), (''B2'', filing_b)] \<and>
   queries (snd (extract_filings fetched_with_duplicate))
     = [\<lparr>query = query1, fetched = 2, new_unique = 2\<rparr>,
        \<lparr>query = query2, fetched = 2, new_unique = 0\<rparr>]"
  using missing_id_never_stored[of fetched_with_duplicate]
  by (simp add: ex_defs Let_def has_id_def)

section \<open>Properties of the relevance classifier\<close>

lemma py_in_iff: "py_in t s \<longleftrightarrow> (\<exists>pre post. s = pre @ t @ post)"
proof (induction s)
  case Nil
  show ?case by simp
next
  case (Cons c cs)
  have "(\<exists>pre post. c # cs = pre @ t @ post) \<longleftrightarrow>
        (\<exists>post. c # cs = t @ post) \<or> (\<exists>pre post. cs = pre @ t @ post)"
  proof
    assume "\<exists>pre post. c # cs = pre @ t @ post"
    then obtain pre post where e: "c # cs = pre @ t @ post" by blast
    show "(\<exists>post. c # cs = t @ post) \<or> (\<exists>pre post. cs = pre @ t @ post)"
    proof (cases pre)
      case Nil
      with e show ?thesis by auto
    next
      case (Cons a pre')
      with e have "cs = pre' @ t @ post" by simp
      then show ?thesis by blast
    qed
  next
    assume "(\<exists>post. c # cs = t @ post) \<or> (\<exists>pre post. cs = pre @ t @ post)"
    then show "\<exists>pre post. c # cs = pre @ t @ post"
    proof
      assume "\<exists>post. c # cs = t @ post"
      then obtain post where "c # cs = [] @ t @ post" by auto
      then show ?thesis by blast
    next
      assume "\<exists>pre post. cs = pre @ t @ post"
      then obtain pre post where "c # cs = (c # pre) @ t @ post" by auto
      then show ?thesis by blast
    qed
  qed
  then show ?case by (simp add: Cons.IH prefix_def)
qed

lemma py_in_lower_iff:
  assumes "py_lower t = t"
  shows "py_in t (py_lower s) \<longleftrightarrow> contains_ci t s"
proof
  assume "py_in t (py_lower s)"
  then obtain pre post where "map py_lower_char s = pre @ t @ post"
    by (auto simp: py_in_iff py_lower_def)
  then obtain a r where ar: "s = a @ r" "t @ post = map py_lower_char r"
    by (auto simp: map_eq_append_conv)
  then obtain b c where "r = b @ c" "map py_lower_char b = t"
    by (auto simp: append_eq_map_conv)
  with ar have "s = a @ b @ c" "map py_lower_char b = t" by simp_all
  then show "contains_ci t s" using assms by (auto simp: contains_ci_def py_lower_def)
next
  assume "contains_ci t s"
  then obtain a b c where s: "s = a @ b @ c" and b: "py_lower b = t"
    using assms by (auto simp: contains_ci_def)
  have "py_lower s = py_lower a @ t @ py_lower c"
    using b by (simp add: s py_lower_def)
  then show "py_in t (py_lower s)" unfolding py_in_iff by blast
qed

lemma or_empty_py_get: "or_empty (py_get j) = text_of j"
  by (cases j) simp_all

lemma triggers_lower:
  "py_lower ''interconnected voip numbering'' = ''interconnected voip numbering''"
  "py_lower ''voip numbering authorization application'' = ''voip numbering authorization application''"
  "py_lower ''authorization to obtain numbering resources'' = ''authorization to obtain numbering resources''"
  "py_lower ''voip numbering'' = ''voip numbering''"
  by code_simp+

lemma proceedings_loop_iff:
  "proceedings_loop ps \<longleftrightarrow>
     (\<exists>p \<in> set ps. \<exists>t \<in> set trigger_phrases. contains_ci t (text_of (proc_description p)))"
proof (induction ps)
  case Nil
  show ?case by simp
next
  case (Cons p ps)
  show ?case
    by (simp add: Let_def or_empty_py_get py_in_lower_iff[OF triggers_lower(1)]
        py_in_lower_iff[OF triggers_lower(2)] py_in_lower_iff[OF triggers_lower(3)]
        trigger_phrases_def Cons.IH del: py_in.simps)
qed

lemma documents_loop_iff:
  "documents_loop ds \<longleftrightarrow>
     (\<exists>d \<in> set ds. contains_ci ''voip numbering'' (text_of (doc_filename d)))"
  by (induction ds)
     (simp_all add: Let_def or_empty_py_get py_in_lower_iff[OF triggers_lower(4)]
        del: py_in.simps)

text \<open>
  Claim C5. \<open>is_ipes_filing\<close> holds exactly when the description of some proceeding
  contains, up to case, one of the three trigger phrases, or the file name of some
  document contains, up to case, "voip numbering". An absent or null description or
  file name counts as the empty text; the classifier is a total function on filings,
  so it gives an answer on every such filing.
\<close>

theorem is_ipes_filing_iff:
  "is_ipes_filing filing \<longleftrightarrow>
     (\<exists>p \<in> set (proceedings filing). \<exists>t \<in> set trigger_phrases.
        contains_ci t (text_of (proc_description p))) \<or>
     (\<exists>d \<in> set (documents filing). contains_ci ''voip numbering'' (text_of (doc_filename d)))"
  unfolding is_ipes_filing_def proceedings_loop_iff documents_loop_iff by auto

theorem is_ipes_filing_iff_witness:
  "is_ipes_filing filing_voip_proceeding \<and>
   ((\<exists>p \<in> set (proceedings filing_voip_proceeding). \<exists>t \<in> set trigger_phrases.
        contains_ci t (text_of (proc_description p))) \<or>
    (\<exists>d \<in> set (documents filing_voip_proceeding).
        contains_ci ''voip numbering'' (text_of (doc_filename d)))) \<and>
   \<not> is_ipes_filing filing_unrelated \<and>
   \<not> ((\<exists>p \<in> set (proceedings filing_unrelated). \<exists>t \<in> set trigger_phrases.
        contains_ci t (text_of (proc_description p))) \<or>
    (\<exists>d \<in> set (documents filing_unrelated).
        contains_ci ''voip numbering'' (text_of (doc_filename d))))"
proof -
  have a: "is_ipes_filing filing_voip_proceeding" by code_simp
  have b: "\<not> is_ipes_filing filing_unrelated" by code_simp
  show ?thesis
    using a b is_ipes_filing_iff[of filing_voip_proceeding] is_ipes_filing_iff[of filing_unrelated]
    by blast
qed

section \<open>The two file name sanitizers\<close>

text \<open>
  Claim C9. The \<open>sanitize_filename\<close> of download\_docs.py and the one of enrich.py
  return the same result on every input.
\<close>

theorem sanitize_filename_agree:
  "sanitize_filename_download_docs = sanitize_filename_enrich"
  by (rule ext) (simp only: sanitize_filename_download_docs_def sanitize_filename_enrich_def)

lemma sanitize_filename_example:
  "sanitize_filename_download_docs ''a  b__c:d?.pdf'' = ''a_b_c_d_.pdf'' \<and>
   sanitize_filename_enrich (replicate 120 CHR ''a'' @ ''.x.pdf'') = replicate 95 CHR ''a'' @ ''.pdf''"
  by code_simp

section \<open>Properties of the name normalizer\<close>

text \<open>
  Claim C2 fails on the code: the normalizer removes trailing periods and commas after
  it has removed trailing whitespace, so the name "acme ." is normalized to "acme "
  with a trailing space, and normalizing that once more gives "acme".
\<close>

theorem normalize_not_idempotent:
  "normalize_company_name ''acme .'' = ''acme '' \<and>
   normalize_company_name (normalize_company_name ''acme .'') = ''acme'' \<and>
   normalize_company_name (normalize_company_name ''acme .'') \<noteq> normalize_company_name ''acme .''"
  by code_simp

text \<open>On the three names the specification lists, normalizing twice changes nothing.\<close>

lemma normalize_idempotent_on_listed_names:
  "normalize_company_name (normalize_company_name ''Acme, L.L.C.'') = normalize_company_name ''Acme, L.L.C.'' \<and>
   normalize_company_name (normalize_company_name ''ACME INC'') = normalize_company_name ''ACME INC'' \<and>
   normalize_company_name (normalize_company_name ''Acme   Co.'') = normalize_company_name ''Acme   Co.''"
  by code_simp


subsection \<open>The suffix rules match at the end of the name\<close>

lemma concat_map_concat:
  "concat (map f (concat xss)) = concat (map (\<lambda>xs. concat (map f xs)) xss)"
  by (induction xss) simp_all

lemma ms_append: "ms (p @ q) s = concat (map (ms q) (ms p s))"
proof (induction p arbitrary: s)
  case Nil
  show ?case by simp
next
  case (Cons a p)
  have "ms (p @ q) = (\<lambda>s. concat (map (ms q) (ms p s)))"
    by (rule ext) (rule Cons.IH)
  then show ?case by (simp add: concat_map_concat comp_def)
qed

lemma many_suffix: "r \<in> set (many k t) \<Longrightarrow> suffix r t"
  by (induction t) (auto simp: suffix_Cons split: if_splits)

lemma lazy1_suffix: "r \<in> set (lazy1 k t) \<Longrightarrow> suffix r t"
  by (induction t) (auto simp: suffix_Cons split: if_splits)

lemma atom_ms_suffix: "r \<in> set (atom_ms a t) \<Longrightarrow> suffix r t"
  by (cases a; cases t)
     (auto simp: suffix_Cons dest: many_suffix lazy1_suffix split: if_splits)

lemma ms_suffix: "r \<in> set (ms p t) \<Longrightarrow> suffix r t"
proof (induction p arbitrary: t)
  case Nil
  then show ?case by simp
next
  case (Cons a p)
  then obtain x where "x \<in> set (atom_ms a t)" "r \<in> set (ms p x)" by auto
  then show ?case using Cons.IH atom_ms_suffix suffix_order.trans by blast
qed

lemma ms_eol: "r \<in> set (ms (q @ [Eol]) t) \<Longrightarrow> r = [] \<or> r = [CHR 0x0A]"
  by (auto simp: ms_append split: if_splits)

lemma re_sub_anchored:
  assumes "s = [] \<or> last s \<noteq> CHR 0x0A"
  shows "re_sub (q @ [Eol]) repl s = s \<or>
         (\<exists>pre t. s = pre @ t \<and> t \<noteq> [] \<and> re_sub (q @ [Eol]) repl s = pre @ repl)"
  using assms
proof (induction s)
  case Nil
  show ?case by simp
next
  case (Cons c cs)
  let ?p = "q @ [Eol]"
  show ?case
  proof (cases "ms ?p (c # cs)")
    case Nil
    have "cs = [] \<or> last cs \<noteq> CHR 0x0A" using Cons.prems by auto
    from Cons.IH[OF this] have "re_sub ?p repl cs = cs \<or>
         (\<exists>pre t. cs = pre @ t \<and> t \<noteq> [] \<and> re_sub ?p repl cs = pre @ repl)" .
    then show ?thesis
    proof
      assume "re_sub ?p repl cs = cs"
      then show ?thesis using Nil by simp
    next
      assume "\<exists>pre t. cs = pre @ t \<and> t \<noteq> [] \<and> re_sub ?p repl cs = pre @ repl"
      then obtain pre t where "cs = pre @ t" "t \<noteq> []" "re_sub ?p repl cs = pre @ repl" by blast
      then have "c # cs = (c # pre) @ t \<and> t \<noteq> [] \<and> re_sub ?p repl (c # cs) = (c # pre) @ repl"
        using Nil by simp
      then show ?thesis by blast
    qed
  next
    case (Cons x xs)
    then have x: "x \<in> set (ms ?p (c # cs))" by simp
    have "x \<noteq> [CHR 0x0A]"
    proof
      assume "x = [CHR 0x0A]"
      with ms_suffix[OF x] have "suffix [CHR 0x0A] (c # cs)" by simp
      then obtain zs where "c # cs = zs @ [CHR 0x0A]" by (auto simp: suffix_def)
      then have "last (c # cs) = CHR 0x0A" by (metis last_snoc)
      with Cons.prems show False by simp
    qed
    with ms_eol[OF x] have "x = []" by simp
    then have "re_sub ?p repl (c # cs) = repl" using Cons by simp
    then have "c # cs = [] @ (c # cs) \<and> c # cs \<noteq> [] \<and> re_sub ?p repl (c # cs) = [] @ repl"
      by simp
    then show ?thesis by blast
  qed
qed

lemma py_strip_no_final_space: "py_strip s = [] \<or> \<not> py_isspace (last (py_strip s))"
proof -
  let ?d = "dropWhile py_isspace (rev (py_lstrip s))"
  have "?d = [] \<or> \<not> py_isspace (hd ?d)" using hd_dropWhile[of py_isspace] by blast
  then show ?thesis by (auto simp: py_strip_def py_rstrip_def last_rev)
qed

lemma newline_isspace: "py_isspace (CHR 0x0A)"
  by (simp add: py_isspace_def)

lemma py_strip_no_final_newline: "py_strip s = [] \<or> last (py_strip s) \<noteq> CHR 0x0A"
  using py_strip_no_final_space[of s] newline_isspace by auto

lemma suffixes_last:
  "\<forall>(p, r) \<in> set suffixes. p \<noteq> [] \<and> last p = Eol \<and> r \<noteq> [] \<and> last r \<noteq> CHR 0x0A"
  by (simp add: suffixes_def sep_def dotted_def lits_def)

lemma suffixes_shape:
  assumes "(p, r) \<in> set suffixes"
  shows "(\<exists>q. p = q @ [Eol]) \<and> r \<noteq> [] \<and> last r \<noteq> CHR 0x0A"
proof -
  from assms suffixes_last have l: "p \<noteq> [] \<and> last p = Eol \<and> r \<noteq> [] \<and> last r \<noteq> CHR 0x0A"
    by blast
  then have "p = butlast p @ [Eol]" using append_butlast_last_id[of p] by simp
  with l show ?thesis by blast
qed

lemma after_rules_Suc:
  assumes "k < length suffixes"
  shows "after_rules (Suc k) name
           = re_sub (fst (suffixes ! k)) (snd (suffixes ! k)) (after_rules k name)"
  using assms
  by (simp add: after_rules_def apply_suffixes_def take_Suc_conv_app_nth split_beta)

lemma after_rules_no_final_newline:
  "k \<le> length suffixes \<Longrightarrow> after_rules k name = [] \<or> last (after_rules k name) \<noteq> CHR 0x0A"
proof (induction k)
  case 0
  show ?case using py_strip_no_final_newline by (simp add: after_rules_def apply_suffixes_def)
next
  case (Suc k)
  then have k: "k < length suffixes" and ih: "after_rules k name = [] \<or> last (after_rules k name) \<noteq> CHR 0x0A"
    by simp_all
  obtain p r where pr: "suffixes ! k = (p, r)" by (cases "suffixes ! k")
  then have "(p, r) \<in> set suffixes" using k nth_mem by metis
  from suffixes_shape[OF this] obtain q where q: "p = q @ [Eol]" and r: "r \<noteq> []" "last r \<noteq> CHR 0x0A"
    by blast
  have e: "after_rules (Suc k) name = re_sub (q @ [Eol]) r (after_rules k name)"
    using after_rules_Suc[OF k] pr q by simp
  from re_sub_anchored[OF ih, of q r] show ?case
  proof
    assume "re_sub (q @ [Eol]) r (after_rules k name) = after_rules k name"
    with e ih show ?thesis by simp
  next
    assume "\<exists>pre t. after_rules k name = pre @ t \<and> t \<noteq> [] \<and>
        re_sub (q @ [Eol]) r (after_rules k name) = pre @ r"
    then obtain pre where "after_rules (Suc k) name = pre @ r" using e by auto
    with r show ?thesis by simp
  qed
qed

lemma normalize_company_name_after_rules:
  "normalize_company_name name =
     (if name = [] then []
      else py_rstrip_chars ''.,''
             (py_strip (re_sub [Many1 Space] '' '' (after_rules (length suffixes) name))))"
  by (simp add: normalize_company_name_def after_rules_def Let_def)

text \<open>
  Every rule of the suffix table matches only at the end of the name: one round of the
  loop either leaves the name as it is or replaces a non-empty trailing part of it by
  the canonical suffix of the rule, and keeps everything before that part.
\<close>

lemma suffix_rule_matches_at_end:
  assumes "k < length suffixes"
  shows "after_rules (Suc k) name = after_rules k name \<or>
         (\<exists>pre t. after_rules k name = pre @ t \<and> t \<noteq> [] \<and>
            after_rules (Suc k) name = pre @ snd (suffixes ! k))"
proof -
  obtain p r where pr: "suffixes ! k = (p, r)" by (cases "suffixes ! k")
  then have "(p, r) \<in> set suffixes" using assms nth_mem by metis
  from suffixes_shape[OF this] obtain q where q: "p = q @ [Eol]" by blast
  have e: "after_rules (Suc k) name = re_sub (q @ [Eol]) r (after_rules k name)"
    using after_rules_Suc[OF assms] pr q by simp
  have n: "after_rules k name = [] \<or> last (after_rules k name) \<noteq> CHR 0x0A"
    using after_rules_no_final_newline[of k name] assms by simp
  from re_sub_anchored[OF n, of q r] e pr show ?thesis by simp
qed

text \<open>
  Claim C6 fails on the code for names that end in an LLP variant: the loop does not
  stop at the first rule that matches. On "Acme LLP" the fourth rule rewrites the end
  of the name to its canonical " llp"; the fifth rule, the one for LP, then matches the
  "lp" of that result and rewrites it once more, and the key is "acme l lp". Applying
  only the first matching rule gives "acme llp". The spelling "acme llp," of the same
  name keeps the key "acme llp", so the two spellings fall into different groups.
\<close>

theorem llp_suffix_rewritten_by_lp_rule:
  "after_rules 3 ''Acme LLP'' = ''acme llp'' \<and>
   after_rules 4 ''Acme LLP'' = ''acme llp'' \<and>
   after_rules 5 ''Acme LLP'' = ''acme l lp'' \<and>
   normalize_company_name ''Acme LLP'' = ''acme l lp'' \<and>
   apply_first_matching suffixes (py_strip (py_lower ''Acme LLP'')) = ''acme llp'' \<and>
   normalize_company_name ''Acme, L.L.P.'' = ''acme l lp'' \<and>
   normalize_company_name ''acme llp,'' = ''acme llp'' \<and>
   normalize_company_name ''Acme LLP'' \<noteq> normalize_company_name ''acme llp,''"
  by code_simp

section \<open>Properties of the grouping and of the company records\<close>

subsection \<open>The groups built by the first loop\<close>

lemma dict_append_map_fst:
  "set (map fst (dict_append k v d)) = insert k (set (map fst d))"
proof (induction d)
  case Nil
  show ?case by simp
next
  case (Cons a d)
  obtain k' vs where a: "a = (k', vs)" by (cases a)
  show ?case using Cons.IH by (cases "k' = k") (simp_all add: a insert_commute)
qed

lemma set_map_filter_iff:
  "y \<in> set (List.map_filter h xs) \<longleftrightarrow> (\<exists>x \<in> set xs. h x = Some y)"
  by (induction xs) (auto split: option.splits)

lemma dict_append_keys:
  "fst ` set (dict_append k v d) = insert k (fst ` set d)"
  using dict_append_map_fst[of k v d] by simp

lemma dict_lookup_Nil: "dict_lookup [] k = []"
  by (simp add: dict_lookup_def)

lemma dict_append_distinct:
  "distinct (map fst d) \<Longrightarrow> distinct (map fst (dict_append k v d))"
  by (induction d) (auto simp: dict_append_keys)

lemma dict_append_lookup:
  "dict_lookup (dict_append k v d) k' =
     (if k' = k then dict_lookup d k @ [v] else dict_lookup d k')"
  by (induction d) (auto simp: dict_lookup_def)

lemma dict_add_lookup:
  "dict_lookup (dict_add k v d) k' =
     (if k' = k then set_add v (dict_lookup d k) else dict_lookup d k')"
  by (induction d) (auto simp: dict_lookup_def set_add_def)

lemma set_set_add: "set (set_add v vs) = insert v (set vs)"
  by (auto simp: set_add_def)

lemma company_filings_group_step:
  "company_filings (group_step g f) =
     (case filing_key f of None \<Rightarrow> company_filings g
      | Some k \<Rightarrow> dict_append k f (company_filings g))"
  by (auto simp: group_step_def filing_key_def Let_def split: list.splits)

lemma name_variations_group_step:
  "name_variations (group_step g f) =
     (case filing_key f of None \<Rightarrow> name_variations g
      | Some k \<Rightarrow> dict_add k (filing_filer_name f) (name_variations g))"
  by (auto simp: group_step_def filing_key_def filing_filer_name_def Let_def split: list.splits)

lemma group_of_Cons:
  "group_of (f # fs) k = (if filing_key f = Some k then f # group_of fs k else group_of fs k)"
  by (simp add: group_of_def)

lemma company_filings_foldl_lookup:
  "dict_lookup (company_filings (foldl group_step g fs)) k
     = dict_lookup (company_filings g) k @ group_of fs k"
proof (induction fs arbitrary: g)
  case Nil
  show ?case by (simp add: group_of_def)
next
  case (Cons f fs)
  show ?case
    by (cases "filing_key f")
       (simp_all add: Cons.IH company_filings_group_step dict_append_lookup group_of_Cons)
qed

lemma company_filings_foldl_keys:
  "fst ` set (company_filings (foldl group_step g fs))
     = fst ` set (company_filings g) \<union> {k. group_of fs k \<noteq> []}"
proof (induction fs arbitrary: g)
  case Nil
  show ?case by (simp add: group_of_def)
next
  case (Cons f fs)
  show ?case
    by (cases "filing_key f")
       (auto simp: Cons.IH company_filings_group_step dict_append_keys group_of_Cons)
qed

lemma company_filings_foldl_distinct:
  "distinct (map fst (company_filings g)) \<Longrightarrow>
   distinct (map fst (company_filings (foldl group_step g fs)))"
proof (induction fs arbitrary: g)
  case Nil
  then show ?case by simp
next
  case (Cons f fs)
  have "distinct (map fst (company_filings (group_step g f)))"
    using Cons.prems
    by (cases "filing_key f") (simp_all add: company_filings_group_step dict_append_distinct)
  from Cons.IH[OF this] show ?case by simp
qed

lemma name_variations_foldl_lookup:
  "set (dict_lookup (name_variations (foldl group_step g fs)) k)
     = set (dict_lookup (name_variations g) k) \<union> variants_of fs k"
proof (induction fs arbitrary: g)
  case Nil
  show ?case by (simp add: group_of_def variants_of_def)
next
  case (Cons f fs)
  show ?case
    by (cases "filing_key f")
       (auto simp: Cons.IH name_variations_group_step dict_add_lookup group_of_Cons
          variants_of_def set_set_add)
qed

lemma company_filings_items:
  "(k, filings) \<in> set (company_filings (group_filings fs))
     \<longleftrightarrow> filings = group_of fs k \<and> group_of fs k \<noteq> []"
proof -
  let ?cf = "company_filings (group_filings fs)"
  have d: "distinct (map fst ?cf)"
    unfolding group_filings_def
    by (rule company_filings_foldl_distinct) (simp add: empty_grouping_def)
  have l: "dict_lookup ?cf k = group_of fs k"
    by (simp add: group_filings_def company_filings_foldl_lookup empty_grouping_def
        dict_lookup_Nil)
  have ks: "k \<in> fst ` set ?cf \<longleftrightarrow> group_of fs k \<noteq> []"
    by (simp add: group_filings_def company_filings_foldl_keys empty_grouping_def)
  show ?thesis
  proof
    assume m: "(k, filings) \<in> set ?cf"
    then have "map_of ?cf k = Some filings" using d by simp
    then have "filings = group_of fs k" using l by (simp add: dict_lookup_def)
    moreover have "group_of fs k \<noteq> []" using m ks by force
    ultimately show "filings = group_of fs k \<and> group_of fs k \<noteq> []" by simp
  next
    assume a: "filings = group_of fs k \<and> group_of fs k \<noteq> []"
    then have "k \<in> fst ` set ?cf" using ks by simp
    then obtain v where v: "(k, v) \<in> set ?cf" by auto
    then have "map_of ?cf k = Some v" using d by simp
    then have "v = group_of fs k" using l by (simp add: dict_lookup_def)
    with v a show "(k, filings) \<in> set ?cf" by simp
  qed
qed

lemma name_variations_items:
  "set (dict_lookup (name_variations (group_filings fs)) k) = variants_of fs k"
  by (simp add: group_filings_def name_variations_foldl_lookup empty_grouping_def
      dict_lookup_Nil)

lemma structure_companies_member:
  "c \<in> set (fst (structure_companies fs)) \<longleftrightarrow>
     (\<exists>k. group_of fs k \<noteq> [] \<and> build_company (group_filings fs) (k, group_of fs k) = Some c)"
proof -
  have "c \<in> set (fst (structure_companies fs)) \<longleftrightarrow>
        (\<exists>item \<in> set (company_filings (group_filings fs)).
           build_company (group_filings fs) item = Some c)"
    by (simp add: structure_companies_def Let_def set_map_filter_iff)
  also have "\<dots> \<longleftrightarrow> (\<exists>k. group_of fs k \<noteq> [] \<and>
        build_company (group_filings fs) (k, group_of fs k) = Some c)"
    using company_filings_items[of _ _ fs] by (metis prod.collapse)
  finally show ?thesis .
qed

subsection \<open>The fields of an emitted record\<close>

lemma sort_key_eq_Nil: "sort_key f xs = [] \<longleftrightarrow> xs = []"
  by (metis length_sort length_0_conv)

lemma build_company_Some:
  assumes "build_company g (k, filings) = Some c"
  shows "filter is_application filings \<noteq> []"
    and "company_name_normalized c = k"
    and "application_count c = int (length (filter is_application filings))"
    and "total_filing_count c = int (length filings)"
    and "first_filing_date c = date10 (sort_key date_key (filter is_application filings) ! 0)"
    and "latest_filing_date c = (if filings \<noteq> [] then Some (date10 (last filings)) else None)"
    and "company_name c =
           (if dict_lookup (name_variations g) k \<noteq> []
            then sort_key variation_key (dict_lookup (name_variations g) k) ! 0 else k)"
    and "dba_name c = snd (extract_dba_name (company_name c))"
  using assms
  by (auto simp: build_company_def Let_def split_beta sort_key_eq_Nil split: if_splits)

lemma sort_key_hd_min:
  assumes "vs \<noteq> []"
  shows "sort_key f vs ! 0 \<in> set vs \<and> (\<forall>v \<in> set vs. f (sort_key f vs ! 0) \<le> f v)"
proof -
  let ?s = "sort_key f vs"
  have ne: "?s \<noteq> []" using assms by (metis length_sort length_0_conv)
  then obtain x xs where s: "?s = x # xs" by (cases ?s) auto
  have "sorted (map f ?s)" by simp
  then have a: "\<forall>v \<in> set (x # xs). f x \<le> f v" unfolding s by auto
  have e: "set (x # xs) = set vs" using s set_sort[of f vs] by simp
  have "x \<in> set vs" using e by auto
  moreover have "\<forall>v \<in> set vs. f x \<le> f v" using a e by blast
  ultimately show ?thesis using s by simp
qed

lemma variation_key_le:
  "variation_key p \<le> variation_key v \<longleftrightarrow>
     length v < length p \<or> (length v = length p \<and> p \<le> v)"
  by (auto simp: variation_key_def less_eq_prod_def)

lemma variation_key_min_unique:
  assumes "p \<in> S" "q \<in> S"
    and "\<forall>v \<in> S. variation_key p \<le> variation_key v"
    and "\<forall>v \<in> S. variation_key q \<le> variation_key v"
  shows "p = q"
proof -
  have "variation_key p \<le> variation_key q" "variation_key q \<le> variation_key p"
    using assms by blast+
  then have "variation_key p = variation_key q" by (rule antisym)
  then show ?thesis by (simp add: variation_key_def)
qed


lemma member_group:
  assumes "c \<in> set (fst (structure_companies fs))"
  shows "group_of fs (company_name_normalized c) \<noteq> [] \<and>
         build_company (group_filings fs)
           (company_name_normalized c, group_of fs (company_name_normalized c)) = Some c"
proof -
  from assms obtain k where k: "group_of fs k \<noteq> []"
      "build_company (group_filings fs) (k, group_of fs k) = Some c"
    unfolding structure_companies_member by blast
  from build_company_Some(2)[OF k(2)] k show ?thesis by simp
qed

lemma take_mono_lex: "(x::string) \<le> y \<Longrightarrow> take n x \<le> take n y"
proof (induction n arbitrary: x y)
  case 0
  show ?case by simp
next
  case (Suc n)
  show ?case
  proof (cases x)
    case Nil
    then show ?thesis by simp
  next
    case (Cons a x')
    with Suc.prems obtain b y' where y: "y = b # y'" by (cases y) auto
    from Suc.prems have "a < b \<or> a = b \<and> x' \<le> y'" by (simp add: Cons y)
    then show ?thesis using Suc.IH[of x' y'] by (auto simp: Cons y)
  qed
qed

lemma first_filing_date_is_min:
  assumes "c \<in> set (fst (structure_companies fs))"
  shows "first_filing_date c
           \<in> date10 ` set (filter is_application (group_of fs (company_name_normalized c))) \<and>
         (\<forall>f \<in> set (filter is_application (group_of fs (company_name_normalized c))).
            first_filing_date c \<le> date10 f)"
proof -
  let ?apps = "filter is_application (group_of fs (company_name_normalized c))"
  from member_group[OF assms]
  have b: "build_company (group_filings fs)
      (company_name_normalized c, group_of fs (company_name_normalized c)) = Some c" by simp
  have ne: "?apps \<noteq> []" by (rule build_company_Some(1)[OF b])
  have e: "first_filing_date c = date10 (sort_key date_key ?apps ! 0)"
    by (rule build_company_Some(5)[OF b])
  from sort_key_hd_min[OF ne, of date_key]
  have m: "sort_key date_key ?apps ! 0 \<in> set ?apps"
    and l: "\<forall>f \<in> set ?apps. date_key (sort_key date_key ?apps ! 0) \<le> date_key f" by simp_all
  have "\<forall>f \<in> set ?apps. first_filing_date c \<le> date10 f"
    using l by (auto simp: e date10_def intro: take_mono_lex)
  moreover have "first_filing_date c \<in> date10 ` set ?apps" using m e by blast
  ultimately show ?thesis by blast
qed

lemma length_date10: "length (date10 f) = min (length (date_key f)) 10"
  by (simp add: date10_def)

lemma group_of_subset: "set (group_of fs k) \<subseteq> set fs"
  by (auto simp: group_of_def)


text \<open>
  Claim C7. A group without a filing of type APPLICATION gives no record, and the group
  of every emitted record holds at least one APPLICATION filing; a group that consists
  of one SUPPLEMENT filing gives no record.
\<close>

theorem no_application_no_record:
  "(\<forall>c \<in> set (fst (structure_companies fs)).
      \<exists>f \<in> set (group_of fs (company_name_normalized c)). is_application f) \<and>
   (\<forall>k. (\<forall>f \<in> set (group_of fs k). \<not> is_application f) \<longrightarrow>
      k \<notin> company_name_normalized ` set (fst (structure_companies fs)))"
proof -
  have a: "\<exists>f \<in> set (group_of fs (company_name_normalized c)). is_application f"
    if "c \<in> set (fst (structure_companies fs))" for c
  proof -
    from member_group[OF that] build_company_Some(1)
    have "filter is_application (group_of fs (company_name_normalized c)) \<noteq> []" by blast
    then show ?thesis by (simp add: filter_empty_conv)
  qed
  then show ?thesis by blast
qed


theorem no_application_no_record_witness:
  "fst (structure_companies [filing_lone_supplement]) = [] \<and>
   group_of lines_with_lone_supplement ''omega telecom inc'' = [filing_lone_supplement] \<and>
   \<not> is_application filing_lone_supplement \<and>
   ''omega telecom inc''
     \<notin> company_name_normalized ` set (fst (structure_companies lines_with_lone_supplement)) \<and>
   hd (fst (structure_companies lines_with_lone_supplement))
     \<in> set (fst (structure_companies lines_with_lone_supplement)) \<and>
   (\<exists>f \<in> set (group_of lines_with_lone_supplement
        (company_name_normalized (hd (fst (structure_companies lines_with_lone_supplement))))).
      is_application f)"
proof -
  have a: "fst (structure_companies [filing_lone_supplement]) = []" by code_simp
  have b: "group_of lines_with_lone_supplement ''omega telecom inc'' = [filing_lone_supplement]"
    by code_simp
  have c: "\<not> is_application filing_lone_supplement" by code_simp
  have d: "length (fst (structure_companies lines_with_lone_supplement)) = 1" by code_simp
  then have e: "hd (fst (structure_companies lines_with_lone_supplement))
     \<in> set (fst (structure_companies lines_with_lone_supplement))"
    by (cases "fst (structure_companies lines_with_lone_supplement)") simp_all
  have f: "\<forall>f \<in> set (group_of lines_with_lone_supplement ''omega telecom inc''). \<not> is_application f"
    using b c by simp
  from a b c e f no_application_no_record[of lines_with_lone_supplement] show ?thesis by blast
qed


text \<open>
  Claim C8. The \<open>company_name\<close> of an emitted record is one of the name variants
  observed for its group; no variant is longer, and among the variants of the same
  length it is the least in lexicographic order: it is the first element of the
  distinct variants sorted by descending length and then ascending lexicographic order,
  in whatever order the variants are listed. It is that variant itself, not the base
  that \<open>extract_dba_name\<close> splits off; the d/b/a part is stored in \<open>dba_name\<close>.
\<close>

theorem canonical_name_election:
  assumes "c \<in> set (fst (structure_companies fs))"
  shows "company_name c \<in> variants_of fs (company_name_normalized c) \<and>
         (\<forall>v \<in> variants_of fs (company_name_normalized c).
            length v < length (company_name c) \<or>
            (length v = length (company_name c) \<and> company_name c \<le> v)) \<and>
         (\<forall>vs. set vs = variants_of fs (company_name_normalized c) \<longrightarrow>
            company_name c = hd (sort_key variation_key vs)) \<and>
         dba_name c = snd (extract_dba_name (company_name c))"
proof -
  let ?k = "company_name_normalized c"
  let ?g = "group_filings fs"
  let ?vs = "dict_lookup (name_variations ?g) ?k"
  from member_group[OF assms] have ne: "group_of fs ?k \<noteq> []"
    and b: "build_company ?g (?k, group_of fs ?k) = Some c" by simp_all
  have sv: "set ?vs = variants_of fs ?k" by (rule name_variations_items)
  have "variants_of fs ?k \<noteq> {}" using ne by (simp add: variants_of_def)
  then have vne: "?vs \<noteq> []" using sv by auto
  have cn: "company_name c = sort_key variation_key ?vs ! 0"
    using build_company_Some(7)[OF b] vne by simp
  from sort_key_hd_min[OF vne, of variation_key] cn sv
  have m: "company_name c \<in> variants_of fs ?k"
    and le: "\<forall>v \<in> variants_of fs ?k. variation_key (company_name c) \<le> variation_key v"
    by auto
  have u: "company_name c = hd (sort_key variation_key vs)" if "set vs = variants_of fs ?k" for vs
  proof -
    have n: "vs \<noteq> []" using that m by auto
    then have "sort_key variation_key vs \<noteq> []" by (simp add: sort_key_eq_Nil)
    then have h: "hd (sort_key variation_key vs) = sort_key variation_key vs ! 0"
      by (simp add: hd_conv_nth)
    from sort_key_hd_min[OF n, of variation_key] that h
    have "hd (sort_key variation_key vs) \<in> variants_of fs ?k"
      "\<forall>v \<in> variants_of fs ?k. variation_key (hd (sort_key variation_key vs)) \<le> variation_key v"
      by auto
    with m le show ?thesis
      using variation_key_min_unique[of "company_name c" "variants_of fs ?k"
          "hd (sort_key variation_key vs)"] by blast
  qed
  from m le u build_company_Some(8)[OF b] show ?thesis
    by (simp add: variation_key_le)
qed

theorem canonical_name_election_witness:
  "fst (structure_companies lines_with_variants) ! 0 \<in> set (fst (structure_companies lines_with_variants)) \<and>
   fst (structure_companies lines_with_variants) ! 1 \<in> set (fst (structure_companies lines_with_variants)) \<and>
   company_name (fst (structure_companies lines_with_variants) ! 0) = ''ACME VOIP, LLC'' \<and>
   c_name_variations (fst (structure_companies lines_with_variants) ! 0)
     = [''ACME VOIP, LLC'', ''Acme VoIP LLC'', ''Acme VoIP, LLC''] \<and>
   company_name (fst (structure_companies lines_with_variants) ! 1) = ''Zeta LLC d/b/a Zed'' \<and>
   dba_name (fst (structure_companies lines_with_variants) ! 1) = Some ''Zed'' \<and>
   extract_dba_name ''Zeta LLC d/b/a Zed'' = (''Zeta LLC'', Some ''Zed'') \<and>
   company_name (fst (structure_companies lines_with_variants) ! 0)
     \<in> variants_of lines_with_variants
         (company_name_normalized (fst (structure_companies lines_with_variants) ! 0)) \<and>
   dba_name (fst (structure_companies lines_with_variants) ! 1)
     = snd (extract_dba_name (company_name (fst (structure_companies lines_with_variants) ! 1)))"
proof -
  have n: "length (fst (structure_companies lines_with_variants)) = 2" by code_simp
  have m0: "fst (structure_companies lines_with_variants) ! 0
      \<in> set (fst (structure_companies lines_with_variants))"
    using n by (simp add: nth_mem)
  have m1: "fst (structure_companies lines_with_variants) ! 1
      \<in> set (fst (structure_companies lines_with_variants))"
    using n by (simp add: nth_mem)
  have a: "company_name (fst (structure_companies lines_with_variants) ! 0) = ''ACME VOIP, LLC''"
    by code_simp
  have b: "c_name_variations (fst (structure_companies lines_with_variants) ! 0)
     = [''ACME VOIP, LLC'', ''Acme VoIP LLC'', ''Acme VoIP, LLC'']" by code_simp
  have c: "company_name (fst (structure_companies lines_with_variants) ! 1) = ''Zeta LLC d/b/a Zed''"
    by code_simp
  have d: "dba_name (fst (structure_companies lines_with_variants) ! 1) = Some ''Zed''"
    by code_simp
  have e: "extract_dba_name ''Zeta LLC d/b/a Zed'' = (''Zeta LLC'', Some ''Zed'')" by code_simp
  from m0 m1 a b c d e canonical_name_election[OF m0] canonical_name_election[OF m1]
  show ?thesis by blast
qed


text \<open>
  Claim C1 fails on the code for \<open>latest_filing_date\<close>: the record takes the date of
  the filing read last for the group, not the latest date. With the SUPPLEMENT of
  2022-01-15 read before the APPLICATION of 2021-03-01, \<open>latest_filing_date\<close> is
  2021-03-01; with the two filings in the other order it is 2022-01-15. The
  \<open>first_filing_date\<close> is the least date of the APPLICATION filings in every order
  (\<open>first_filing_date_is_min\<close>).
\<close>

theorem latest_filing_date_is_last_read:
  "length (fst (structure_companies lines_supplement_first)) = 1 \<and>
   latest_filing_date (hd (fst (structure_companies lines_supplement_first))) = Some ''2021-03-01'' \<and>
   first_filing_date (hd (fst (structure_companies lines_supplement_first))) = ''2021-03-01'' \<and>
   group_of lines_supplement_first ''acme voip llc''
     = [filing_acme_supplement, filing_acme_application] \<and>
   date10 filing_acme_supplement = ''2022-01-15'' \<and>
   (''2021-03-01'' :: string) < ''2022-01-15'' \<and>
   latest_filing_date (hd (fst (structure_companies lines_application_first))) = Some ''2022-01-15''"
  by code_simp


text \<open>
  Claim C10, as stated, fails for the length of the dates: an APPLICATION filing
  without \<open>date_received\<close> gives a record whose two dates are the empty string.
\<close>

theorem first_filing_date_not_ten_characters:
  "length (fst (structure_companies [filing_without_date])) = 1 \<and>
   first_filing_date (hd (fst (structure_companies [filing_without_date]))) = [] \<and>
   latest_filing_date (hd (fst (structure_companies [filing_without_date]))) = Some [] \<and>
   length (first_filing_date (hd (fst (structure_companies [filing_without_date])))) \<noteq> 10"
  by code_simp


text \<open>
  Claim C10, as amended. Every emitted record has \<open>application_count\<close> at least 1,
  \<open>total_filing_count\<close> equal to \<open>application_count\<close> plus the number of filings of
  its group that are no APPLICATION, and a \<open>latest_filing_date\<close> that is not \<open>None\<close>.
  Both dates have at most 10 characters, and exactly 10 when the \<open>date_received\<close> of
  every input filing has at least 10 characters.
\<close>

theorem emitted_record_counts_and_dates:
  assumes "c \<in> set (fst (structure_companies fs))"
  shows "application_count c \<ge> 1 \<and>
         application_count c
           = int (length (filter is_application (group_of fs (company_name_normalized c)))) \<and>
         total_filing_count c
           = application_count c
             + int (length (filter (\<lambda>f. \<not> is_application f)
                             (group_of fs (company_name_normalized c)))) \<and>
         (\<exists>d. latest_filing_date c = Some d \<and> length d \<le> 10 \<and>
              length (first_filing_date c) \<le> 10 \<and>
              ((\<forall>f \<in> set fs. 10 \<le> length (date_key f)) \<longrightarrow>
                 length d = 10 \<and> length (first_filing_date c) = 10))"
proof -
  let ?grp = "group_of fs (company_name_normalized c)"
  let ?apps = "filter is_application ?grp"
  from member_group[OF assms] have gne: "?grp \<noteq> []"
    and b: "build_company (group_filings fs) (company_name_normalized c, ?grp) = Some c"
    by simp_all
  have ne: "?apps \<noteq> []" by (rule build_company_Some(1)[OF b])
  have ac: "application_count c = int (length ?apps)" by (rule build_company_Some(3)[OF b])
  have tc: "total_filing_count c = int (length ?grp)" by (rule build_company_Some(4)[OF b])
  have ff: "first_filing_date c = date10 (sort_key date_key ?apps ! 0)"
    by (rule build_company_Some(5)[OF b])
  have lf: "latest_filing_date c = Some (date10 (last ?grp))"
    using build_company_Some(6)[OF b] gne by simp
  have c1: "application_count c \<ge> 1" using ne ac by (cases ?apps) simp_all
  have "length ?grp = length ?apps + length (filter (\<lambda>f. \<not> is_application f) ?grp)"
    by (rule sum_length_filter_compl[symmetric])
  then have c3: "total_filing_count c
      = application_count c + int (length (filter (\<lambda>f. \<not> is_application f) ?grp))"
    using ac tc by simp
  have m1: "last ?grp \<in> set fs" using gne group_of_subset[of fs] last_in_set by blast
  have "sort_key date_key ?apps ! 0 \<in> set ?apps" using sort_key_hd_min[OF ne] by blast
  then have m2: "sort_key date_key ?apps ! 0 \<in> set fs" using group_of_subset[of fs] by auto
  have c4: "length (date10 (last ?grp)) \<le> 10 \<and> length (first_filing_date c) \<le> 10"
    by (simp add: ff length_date10)
  have c5: "length (date10 (last ?grp)) = 10 \<and> length (first_filing_date c) = 10"
    if "\<forall>f \<in> set fs. 10 \<le> length (date_key f)"
  proof -
    from that m1 have "10 \<le> length (date_key (last ?grp))" by blast
    moreover from that m2 have "10 \<le> length (date_key (sort_key date_key ?apps ! 0))" by blast
    ultimately show ?thesis by (simp add: ff length_date10)
  qed
  from c1 ac c3 lf c4 c5 show ?thesis by simp
qed

theorem emitted_record_counts_and_dates_witness:
  "hd (fst (structure_companies lines_application_first))
     \<in> set (fst (structure_companies lines_application_first)) \<and>
   10 \<le> length (date_key filing_acme_application) \<and>
   10 \<le> length (date_key filing_acme_supplement) \<and>
   application_count (hd (fst (structure_companies lines_application_first))) = 1 \<and>
   total_filing_count (hd (fst (structure_companies lines_application_first))) = 2 \<and>
   first_filing_date (hd (fst (structure_companies lines_application_first))) = ''2021-03-01'' \<and>
   latest_filing_date (hd (fst (structure_companies lines_application_first))) = Some ''2022-01-15'' \<and>
   (\<exists>d. latest_filing_date (hd (fst (structure_companies lines_application_first))) = Some d \<and>
        length d = 10 \<and>
        length (first_filing_date (hd (fst (structure_companies lines_application_first)))) = 10)"
proof -
  have n: "length (fst (structure_companies lines_application_first)) = 1" by code_simp
  then have m: "hd (fst (structure_companies lines_application_first))
     \<in> set (fst (structure_companies lines_application_first))"
    by (cases "fst (structure_companies lines_application_first)") simp_all
  have h1: "10 \<le> length (date_key filing_acme_application)" by code_simp
  have h2: "10 \<le> length (date_key filing_acme_supplement)" by code_simp
  have h: "\<forall>f \<in> set lines_application_first. 10 \<le> length (date_key f)"
    using h1 h2 by (simp add: lines_application_first_def)
  have a: "application_count (hd (fst (structure_companies lines_application_first))) = 1"
    by code_simp
  have b: "total_filing_count (hd (fst (structure_companies lines_application_first))) = 2"
    by code_simp
  have c: "first_filing_date (hd (fst (structure_companies lines_application_first))) = ''2021-03-01''"
    by code_simp
  have d: "latest_filing_date (hd (fst (structure_companies lines_application_first))) = Some ''2022-01-15''"
    by code_simp
  from m h h1 h2 a b c d emitted_record_counts_and_dates[OF m] show ?thesis by blast
qed

end
